theory Spec2Isabelle
  imports Complex_Main
begin

section \<open>Python values reaching the validator\<close>

text \<open>
  The request body is parsed by Python's \<^verbatim>\<open>json\<close> module, so a field value is
  \<^verbatim>\<open>None\<close>, a \<^verbatim>\<open>bool\<close>, an \<^verbatim>\<open>int\<close>, a \<^verbatim>\<open>float\<close>,
  a \<^verbatim>\<open>str\<close>, a \<^verbatim>\<open>list\<close> or a \<^verbatim>\<open>dict\<close>. A finite float is an exact
  rational number; the parser also produces the non-finite floats (the literal
  \<^verbatim>\<open>1e999\<close> reads as infinity, and \<^verbatim>\<open>NaN\<close> and \<^verbatim>\<open>Infinity\<close> are accepted).
  Strings are sequences of code points below 256.
\<close>

datatype py_exn = ValueError | TypeError | OverflowError | KeyError | IndexError | ModelFailure

datatype py_float = Finite rat | NaN | PosInf | NegInf

datatype json =
    JNull
  | JBool bool
  | JInt int
  | JFloat py_float
  | JStr string
  | JList "json list"
  | JDict "(string \<times> json) list"

subsection \<open>The builtin \<^verbatim>\<open>int\<close>\<close>

text \<open>\<^verbatim>\<open>int(x)\<close> of a float truncates toward zero.\<close>

definition py_trunc :: "rat \<Rightarrow> int" where
  "py_trunc q = (if 0 \<le> q then \<lfloor>q\<rfloor> else \<lceil>q\<rceil>)"

text \<open>
  \<^verbatim>\<open>int(s)\<close> of a string: surrounding whitespace is dropped (below 256 these are
  the code points 9 to 13, 32, 133 and 160), one sign is allowed, then decimal digits
  follow, single underscores allowed between two digits. More
  than 4300 digits are refused (the interpreter's default limit). Every refusal is a
  \<^verbatim>\<open>ValueError\<close>.
\<close>

definition is_space :: "char \<Rightarrow> bool" where
  "is_space c = ((of_char c :: nat) \<in> set [9, 10, 11, 12, 13, 32, 133, 160])"

definition is_digit :: "char \<Rightarrow> bool" where
  "is_digit c = (48 \<le> (of_char c :: nat) \<and> (of_char c :: nat) \<le> 57)"

definition digit_value :: "char \<Rightarrow> nat" where
  "digit_value c = of_char c - 48"

definition strip :: "string \<Rightarrow> string" where
  "strip s = rev (dropWhile is_space (rev (dropWhile is_space s)))"

fun scan_digits :: "string \<Rightarrow> nat \<Rightarrow> nat \<Rightarrow> (nat \<times> nat) option" where
  "scan_digits [] acc k = Some (acc, k)"
| "scan_digits (c # cs) acc k =
     (if is_digit c then scan_digits cs (10 * acc + digit_value c) (Suc k)
      else if c = CHR ''_'' then
        (case cs of
           [] \<Rightarrow> None
         | d # ds \<Rightarrow>
             if is_digit d then scan_digits ds (10 * acc + digit_value d) (Suc k) else None)
      else None)"

definition scan_number :: "string \<Rightarrow> (nat \<times> nat) option" where
  "scan_number body =
     (case body of
        [] \<Rightarrow> None
      | c # cs \<Rightarrow> if is_digit c then scan_digits cs (digit_value c) 1 else None)"

definition max_str_digits :: nat where
  "max_str_digits = 4300"

definition int_of_str :: "string \<Rightarrow> py_exn + int" where
  "int_of_str s =
     (let t = strip s;
          (neg, body) =
            (case t of
               [] \<Rightarrow> (False, t)
             | c # cs \<Rightarrow>
                 if c = CHR ''-'' then (True, cs)
                 else if c = CHR ''+'' then (False, cs)
                 else (False, t))
      in case scan_number body of
           None \<Rightarrow> Inl ValueError
         | Some (n, k) \<Rightarrow>
             if max_str_digits < k then Inl ValueError
             else Inr (if neg then - int n else int n))"

fun py_int :: "json \<Rightarrow> py_exn + int" where
  "py_int (JInt n) = Inr n"
| "py_int (JBool b) = Inr (if b then 1 else 0)"
| "py_int (JFloat (Finite q)) = Inr (py_trunc q)"
| "py_int (JFloat NaN) = Inl ValueError"
| "py_int (JFloat PosInf) = Inl OverflowError"
| "py_int (JFloat NegInf) = Inl OverflowError"
| "py_int (JStr s) = int_of_str s"
| "py_int JNull = Inl TypeError"
| "py_int (JList xs) = Inl TypeError"
| "py_int (JDict kvs) = Inl TypeError"

subsection \<open>Formatting integers and lists in messages\<close>

fun str_of_nat :: "nat \<Rightarrow> string" where
  "str_of_nat n =
     (if n < 10 then [char_of (48 + n)]
      else str_of_nat (n div 10) @ [char_of (48 + n mod 10)])"

declare str_of_nat.simps [simp del]

definition py_str :: "int \<Rightarrow> string" where
  "py_str i = (if i < 0 then CHR ''-'' # str_of_nat (nat (- i)) else str_of_nat (nat i))"

fun join_comma :: "string list \<Rightarrow> string" where
  "join_comma [] = []"
| "join_comma [x] = x"
| "join_comma (x # y # ys) = x @ '', '' @ join_comma (y # ys)"

definition py_str_list :: "int list \<Rightarrow> string" where
  "py_str_list xs = ''['' @ join_comma (map py_str xs) @ '']''"

section \<open>The rule table\<close>

text \<open>
  Each entry of \<^verbatim>\<open>VALIDATION_RULES\<close> is a dictionary with the keys \<^verbatim>\<open>type\<close> and
  \<^verbatim>\<open>required\<close>, and optionally \<^verbatim>\<open>min\<close>, \<^verbatim>\<open>max\<close> and \<^verbatim>\<open>allowed_values\<close>;
  the code tests each optional key on its own. The dictionary keeps its entries in
  the order they are written, which is the order the loop visits them.
\<close>

datatype py_type = PyInt

fun type_name :: "py_type \<Rightarrow> string" where
  "type_name PyInt = ''int''"

fun call_type :: "py_type \<Rightarrow> json \<Rightarrow> py_exn + int" where
  "call_type PyInt v = py_int v"

record rule =
  rule_type :: py_type
  rule_min :: "int option"
  rule_max :: "int option"
  allowed_values :: "int list option"
  required :: bool

definition ranged :: "int \<Rightarrow> int \<Rightarrow> rule" where
  "ranged lo hi =
     \<lparr>rule_type = PyInt, rule_min = Some lo, rule_max = Some hi,
      allowed_values = None, required = True\<rparr>"

definition choice :: "int list \<Rightarrow> rule" where
  "choice vs =
     \<lparr>rule_type = PyInt, rule_min = None, rule_max = None,
      allowed_values = Some vs, required = True\<rparr>"

definition VALIDATION_RULES :: "(string \<times> rule) list" where
  "VALIDATION_RULES =
     [(''age'', ranged 18 100),
      (''sex'', choice [0, 1]),
      (''cp'', choice [0, 1, 2, 3]),
      (''trestbps'', ranged 90 200),
      (''chol'', ranged 120 570),
      (''fbs'', choice [0, 1]),
      (''restecg'', choice [0, 1, 2]),
      (''thalach'', ranged 60 220),
      (''exang'', choice [0, 1]),
      (''oldpeak'', choice [0, 1, 2, 3, 4, 5]),
      (''slope'', choice [0, 1, 2]),
      (''ca'', choice [0, 1, 2, 3]),
      (''thal'', choice [0, 1, 2, 3])]"

section \<open>The validator\<close>

text \<open>
  \<^verbatim>\<open>validate_data\<close> reads two shared objects, the rule table and the request
  dictionary, and appends to a list of its own. The three objects form the state that
  every statement of the function is run in.
\<close>

record vstate =
  rules_obj :: "(string \<times> rule) list"
  data_obj :: "string \<rightharpoonup> json"
  errors_obj :: "string list"

definition append_error :: "string \<Rightarrow> vstate \<Rightarrow> vstate" where
  "append_error msg s = s\<lparr>errors_obj := errors_obj s @ [msg]\<rparr>"

definition missing_msg :: "string \<Rightarrow> string" where
  "missing_msg field = ''Missing required field: '' @ field"

definition type_msg :: "string \<Rightarrow> py_type \<Rightarrow> string" where
  "type_msg field t = field @ '' must be of type '' @ type_name t"

definition min_msg :: "string \<Rightarrow> int \<Rightarrow> string" where
  "min_msg field lo = field @ '' must be at least '' @ py_str lo"

definition max_msg :: "string \<Rightarrow> int \<Rightarrow> string" where
  "max_msg field hi = field @ '' must be no more than '' @ py_str hi"

definition allowed_msg :: "string \<Rightarrow> int list \<Rightarrow> string" where
  "allowed_msg field vs = field @ '' must be one of '' @ py_str_list vs"

definition check_min :: "string \<Rightarrow> rule \<Rightarrow> int \<Rightarrow> vstate \<Rightarrow> vstate" where
  "check_min field rules v s =
     (case rule_min rules of
        None \<Rightarrow> s
      | Some lo \<Rightarrow> if v < lo then append_error (min_msg field lo) s else s)"

definition check_max :: "string \<Rightarrow> rule \<Rightarrow> int \<Rightarrow> vstate \<Rightarrow> vstate" where
  "check_max field rules v s =
     (case rule_max rules of
        None \<Rightarrow> s
      | Some hi \<Rightarrow> if v > hi then append_error (max_msg field hi) s else s)"

definition check_allowed :: "string \<Rightarrow> rule \<Rightarrow> int \<Rightarrow> vstate \<Rightarrow> vstate" where
  "check_allowed field rules v s =
     (case allowed_values rules of
        None \<Rightarrow> s
      | Some vs \<Rightarrow> if v \<notin> set vs then append_error (allowed_msg field vs) s else s)"

text \<open>
  One pass of the loop body. The result \<open>Some e\<close> is an exception that leaves the
  function; the \<^verbatim>\<open>except\<close> clause catches \<^verbatim>\<open>ValueError\<close> and \<^verbatim>\<open>TypeError\<close> only.
\<close>

definition validate_field :: "string \<times> rule \<Rightarrow> vstate \<Rightarrow> py_exn option \<times> vstate" where
  "validate_field fr s =
     (let field = fst fr; rules = snd fr in
      case data_obj s field of
        None \<Rightarrow>
          (None, if required rules then append_error (missing_msg field) s else s)
      | Some raw \<Rightarrow>
          (case call_type (rule_type rules) raw of
             Inl e \<Rightarrow>
               if e = ValueError \<or> e = TypeError
               then (None, append_error (type_msg field (rule_type rules)) s)
               else (Some e, s)
           | Inr v \<Rightarrow>
               (None,
                check_allowed field rules v
                  (check_max field rules v (check_min field rules v s)))))"

fun validate_loop :: "(string \<times> rule) list \<Rightarrow> vstate \<Rightarrow> py_exn option \<times> vstate" where
  "validate_loop [] s = (None, s)"
| "validate_loop (fr # rest) s =
     (case validate_field fr s of
        (Some e, s') \<Rightarrow> (Some e, s')
      | (None, s') \<Rightarrow> validate_loop rest s')"

definition validate_data :: "vstate \<Rightarrow> (py_exn + string list) \<times> vstate" where
  "validate_data s0 =
     (let s1 = s0\<lparr>errors_obj := []\<rparr> in
      case validate_loop (rules_obj s1) s1 of
        (Some e, s2) \<Rightarrow> (Inl e, s2)
      | (None, s2) \<Rightarrow> (Inr (errors_obj s2), s2))"

text \<open>A request enters with the process-wide table and its own dictionary.\<close>

definition request_state :: "(string \<rightharpoonup> json) \<Rightarrow> vstate" where
  "request_state data = \<lparr>rules_obj = VALIDATION_RULES, data_obj = data, errors_obj = []\<rparr>"

definition validate :: "(string \<rightharpoonup> json) \<Rightarrow> py_exn + string list" where
  "validate data = fst (validate_data (request_state data))"

subsection \<open>The validator as the specification words it\<close>

text \<open>
  The specification describes what one field contributes: a missing required field
  gives the missing message and nothing else; a value that cannot be coerced gives the
  type message and nothing else; a coerced value gives the bound messages and the
  allowed-value message, each on its own condition. \<open>spec_field_errors\<close> follows that
  wording, and \<open>field_raises\<close> names the one thing the wording has no case for: the
  exception of a coercion that the \<^verbatim>\<open>except\<close> clause does not catch.
\<close>

definition spec_field_errors :: "(string \<rightharpoonup> json) \<Rightarrow> string \<times> rule \<Rightarrow> string list" where
  "spec_field_errors data fr =
     (let field = fst fr; r = snd fr in
      case data field of
        None \<Rightarrow> if required r then [missing_msg field] else []
      | Some raw \<Rightarrow>
          (case call_type (rule_type r) raw of
             Inl e \<Rightarrow> [type_msg field (rule_type r)]
           | Inr v \<Rightarrow>
               (case rule_min r of
                  None \<Rightarrow> []
                | Some lo \<Rightarrow> if v < lo then [min_msg field lo] else [])
               @ (case rule_max r of
                    None \<Rightarrow> []
                  | Some hi \<Rightarrow> if v > hi then [max_msg field hi] else [])
               @ (case allowed_values r of
                    None \<Rightarrow> []
                  | Some vs \<Rightarrow> if v \<notin> set vs then [allowed_msg field vs] else [])))"

definition field_raises :: "(string \<rightharpoonup> json) \<Rightarrow> string \<times> rule \<Rightarrow> py_exn option" where
  "field_raises data fr =
     (case data (fst fr) of
        None \<Rightarrow> None
      | Some raw \<Rightarrow>
          (case call_type (rule_type (snd fr)) raw of
             Inl e \<Rightarrow> if e = ValueError \<or> e = TypeError then None else Some e
           | Inr v \<Rightarrow> None))"

section \<open>The endpoint\<close>

text \<open>
  The classifier is loaded from a file that is not part of the sources, so it is a
  parameter: two functions from the \<open>1 \<times> 13\<close> input matrix to the array of labels and
  to the matrix of class probabilities, each of which may raise. Probabilities are
  floats the endpoint only passes on, so their type is left open. The calls made to
  the classifier are recorded in order. The request body is a JSON object, as the
  inbound interface of the specification has it; the time stamp is a parameter, and
  the lines written to the log are left out.
\<close>

record 'p classifier =
  model_predict :: "int list list \<Rightarrow> py_exn + int list"
  model_predict_proba :: "int list list \<Rightarrow> py_exn + 'p list list"

datatype model_call = PredictCall "int list list" | PredictProbaCall "int list list"

text \<open>What \<^verbatim>\<open>jsonify\<close> is given.\<close>

datatype 'p jout =
    OBool bool
  | OInt int
  | OFloat 'p
  | OStr string
  | OList "'p jout list"
  | OObj "(string \<times> 'p jout) list"

definition subscript :: "'a list \<Rightarrow> nat \<Rightarrow> py_exn + 'a" where
  "subscript xs i = (if i < length xs then Inr (xs ! i) else Inl IndexError)"

definition int_of_field :: "(string \<rightharpoonup> json) \<Rightarrow> string \<Rightarrow> py_exn + int" where
  "int_of_field data k = (case data k of None \<Rightarrow> Inl KeyError | Some v \<Rightarrow> py_int v)"

fun sequence :: "(py_exn + 'a) list \<Rightarrow> py_exn + 'a list" where
  "sequence [] = Inr []"
| "sequence (x # xs) =
     (case x of
        Inl e \<Rightarrow> Inl e
      | Inr v \<Rightarrow> (case sequence xs of Inl e \<Rightarrow> Inl e | Inr vs \<Rightarrow> Inr (v # vs)))"

text \<open>The list literal of \<^verbatim>\<open>predict\<close>, evaluated left to right.\<close>

definition feature_values :: "(string \<rightharpoonup> json) \<Rightarrow> py_exn + int list" where
  "feature_values data =
     sequence (map (int_of_field data)
       [''age'', ''sex'', ''cp'', ''trestbps'', ''chol'', ''fbs'', ''restecg'',
        ''thalach'', ''exang'', ''oldpeak'', ''slope'', ''ca'', ''thal''])"

definition failure_body :: "string list \<Rightarrow> 'p jout" where
  "failure_body errors =
     OObj [(''success'', OBool False), (''errors'', OList (map OStr errors))]"

definition success_body :: "int \<Rightarrow> 'p \<Rightarrow> 'p \<Rightarrow> string \<Rightarrow> 'p jout" where
  "success_body label p0 p1 now =
     OObj [(''success'', OBool True),
           (''prediction'', OInt label),
           (''probability'', OObj [(''negative'', OFloat p0), (''positive'', OFloat p1)]),
           (''timestamp'', OStr now)]"

definition internal_error_body :: "'p jout" where
  "internal_error_body =
     OObj [(''success'', OBool False), (''error'', OStr ''Internal server error'')]"

text \<open>
  The body of the \<^verbatim>\<open>try\<close> block: the response and its status, or the exception
  that leaves the block, together with the calls made to the classifier.
\<close>

definition predict_try ::
  "'p classifier \<Rightarrow> string \<Rightarrow> (string \<rightharpoonup> json) \<Rightarrow> (py_exn + 'p jout \<times> nat) \<times> model_call list"
where
  "predict_try m now data =
     (case validate_data (request_state data) of
        (Inl e, s) \<Rightarrow> (Inl e, [])
      | (Inr errors, s) \<Rightarrow>
          if errors \<noteq> [] then (Inr (failure_body errors, 400), [])
          else
            (case feature_values (data_obj s) of
               Inl e \<Rightarrow> (Inl e, [])
             | Inr row \<Rightarrow>
                 (let vals = [row] in
                  case model_predict m vals of
                    Inl e \<Rightarrow> (Inl e, [PredictCall vals])
                  | Inr prediction \<Rightarrow>
                      (let calls = [PredictCall vals, PredictProbaCall vals] in
                       case model_predict_proba m vals of
                         Inl e \<Rightarrow> (Inl e, calls)
                       | Inr proba \<Rightarrow>
                           (case subscript proba 0 of
                              Inl e \<Rightarrow> (Inl e, calls)
                            | Inr prediction_proba \<Rightarrow>
                                (case subscript prediction 0 of
                                   Inl e \<Rightarrow> (Inl e, calls)
                                 | Inr label \<Rightarrow>
                                     (case subscript prediction_proba 0 of
                                        Inl e \<Rightarrow> (Inl e, calls)
                                      | Inr p0 \<Rightarrow>
                                          (case subscript prediction_proba 1 of
                                             Inl e \<Rightarrow> (Inl e, calls)
                                           | Inr p1 \<Rightarrow>
                                               (Inr (success_body label p0 p1 now, 200),
                                                calls)))))))))"

text \<open>\<^verbatim>\<open>except Exception\<close> turns every exception into the fixed answer with status 500.\<close>

definition predict ::
  "'p classifier \<Rightarrow> string \<Rightarrow> (string \<rightharpoonup> json) \<Rightarrow> ('p jout \<times> nat) \<times> model_call list"
where
  "predict m now data =
     (case predict_try m now data of
        (Inl e, calls) \<Rightarrow> ((internal_error_body, 500), calls)
      | (Inr response, calls) \<Rightarrow> (response, calls))"

section \<open>Vocabulary of the properties\<close>

text \<open>
  A value is within a rule when it passes every check the rule carries; a record is
  valid when every field of the table is present, coerces, and is within its rule.
\<close>

definition within_rule :: "rule \<Rightarrow> int \<Rightarrow> bool" where
  "within_rule r v =
     ((case rule_min r of None \<Rightarrow> True | Some lo \<Rightarrow> lo \<le> v) \<and>
      (case rule_max r of None \<Rightarrow> True | Some hi \<Rightarrow> v \<le> hi) \<and>
      (case allowed_values r of None \<Rightarrow> True | Some vs \<Rightarrow> v \<in> set vs))"

definition valid_field :: "(string \<rightharpoonup> json) \<Rightarrow> string \<times> rule \<Rightarrow> bool" where
  "valid_field data fr =
     (case data (fst fr) of
        None \<Rightarrow> False
      | Some raw \<Rightarrow>
          (case call_type (rule_type (snd fr)) raw of
             Inl e \<Rightarrow> False
           | Inr v \<Rightarrow> within_rule (snd fr) v))"

definition valid_record :: "(string \<rightharpoonup> json) \<Rightarrow> bool" where
  "valid_record data = list_all (valid_field data) VALIDATION_RULES"

text \<open>
  A message is about a field when it is the field's missing message or starts with the
  field's name followed by \<^verbatim>\<open> must \<close>. No field name of the table holds a space, so
  every message is about exactly one field.
\<close>

definition no_space :: "string \<Rightarrow> bool" where
  "no_space f = (CHR '' '' \<notin> set f)"

definition mentions :: "string \<Rightarrow> string \<Rightarrow> bool" where
  "mentions field m =
     (m = missing_msg field \<or> take (length field + 6) m = field @ '' must '')"

text \<open>The record of the first end-to-end scenario.\<close>

definition example_record :: "string \<rightharpoonup> json" where
  "example_record =
     [''age'' \<mapsto> JInt 55, ''sex'' \<mapsto> JInt 1, ''cp'' \<mapsto> JInt 2, ''trestbps'' \<mapsto> JInt 130,
      ''chol'' \<mapsto> JInt 250, ''fbs'' \<mapsto> JInt 0, ''restecg'' \<mapsto> JInt 1,
      ''thalach'' \<mapsto> JInt 150, ''exang'' \<mapsto> JInt 0, ''oldpeak'' \<mapsto> JInt 1,
      ''slope'' \<mapsto> JInt 1, ''ca'' \<mapsto> JInt 0, ''thal'' \<mapsto> JInt 2]"

text \<open>
  A classifier for the examples: it answers label 0 although the second probability is
  the larger one, so a response that sorted the probabilities or read them off the
  label would differ from one that goes by position. Probabilities are written as
  their decimal text.
\<close>

definition example_model :: "string classifier" where
  "example_model =
     \<lparr>model_predict = (\<lambda>vals. Inr [0]),
      model_predict_proba = (\<lambda>vals. Inr [[''0.25'', ''0.75'']])\<rparr>"

definition example_now :: string where
  "example_now = ''2024-01-01T00:00:00''"

text \<open>The record of the second scenario: no age, and a sex outside the allowed values.\<close>

definition scenario_two_record :: "string \<rightharpoonup> json" where
  "scenario_two_record = example_record(''age'' := None, ''sex'' \<mapsto> JInt 5)"

text \<open>
  Records and a rule for the examples: an age one below the minimum, an age at the
  maximum, an oldpeak of 2.5, and a rule whose minimum lies above its maximum, which
  no entry of the table has and which lets both bound checks fire on one value.
\<close>

definition below_min_record :: "string \<rightharpoonup> json" where
  "below_min_record = example_record(''age'' \<mapsto> JInt 17)"

definition crossed_rule :: rule where
  "crossed_rule = ranged 10 5"

definition at_max_record :: "string \<rightharpoonup> json" where
  "at_max_record = example_record(''age'' \<mapsto> JInt 100)"

definition fractional_record :: "string \<rightharpoonup> json" where
  "fractional_record = example_record(''oldpeak'' \<mapsto> JFloat (Finite (5 / 2)))"

section \<open>Properties of the validator\<close>

subsection \<open>The loop, one field at a time\<close>

lemma append_error_frame [simp]:
  "rules_obj (append_error msg s) = rules_obj s"
  "data_obj (append_error msg s) = data_obj s"
  "errors_obj (append_error msg s) = errors_obj s @ [msg]"
  by (simp_all add: append_error_def)

lemma check_min_frame [simp]:
  "rules_obj (check_min f r v s) = rules_obj s"
  "data_obj (check_min f r v s) = data_obj s"
  by (simp_all add: check_min_def split: option.splits)

lemma check_max_frame [simp]:
  "rules_obj (check_max f r v s) = rules_obj s"
  "data_obj (check_max f r v s) = data_obj s"
  by (simp_all add: check_max_def split: option.splits)

lemma check_allowed_frame [simp]:
  "rules_obj (check_allowed f r v s) = rules_obj s"
  "data_obj (check_allowed f r v s) = data_obj s"
  by (simp_all add: check_allowed_def split: option.splits)

lemma check_min_errors:
  "errors_obj (check_min f r v s) = errors_obj s @
     (case rule_min r of None \<Rightarrow> [] | Some lo \<Rightarrow> if v < lo then [min_msg f lo] else [])"
  by (simp add: check_min_def split: option.splits)

lemma check_max_errors:
  "errors_obj (check_max f r v s) = errors_obj s @
     (case rule_max r of None \<Rightarrow> [] | Some hi \<Rightarrow> if v > hi then [max_msg f hi] else [])"
  by (simp add: check_max_def split: option.splits)

lemma check_allowed_errors:
  "errors_obj (check_allowed f r v s) = errors_obj s @
     (case allowed_values r of None \<Rightarrow> [] | Some vs \<Rightarrow> if v \<notin> set vs then [allowed_msg f vs] else [])"
  by (simp add: check_allowed_def split: option.splits)

lemma vstate_eqI:
  "rules_obj s = rules_obj t \<Longrightarrow> data_obj s = data_obj t \<Longrightarrow> errors_obj s = errors_obj t
   \<Longrightarrow> (s :: vstate) = t"
  by simp

lemma validate_field_frame:
  "rules_obj (snd (validate_field fr s)) = rules_obj s \<and>
   data_obj (snd (validate_field fr s)) = data_obj s"
  by (simp add: validate_field_def Let_def split: option.splits sum.splits)

lemma validate_field_returns:
  assumes "field_raises (data_obj s) fr = None"
  shows "validate_field fr s =
           (None, s\<lparr>errors_obj := errors_obj s @ spec_field_errors (data_obj s) fr\<rparr>)"
  using assms
  by (auto simp: validate_field_def field_raises_def spec_field_errors_def Let_def
        check_min_errors check_max_errors check_allowed_errors
      intro!: vstate_eqI split: option.splits sum.splits if_splits)

lemma validate_field_raises:
  assumes "field_raises (data_obj s) fr = Some e"
  shows "validate_field fr s = (Some e, s)"
  using assms
  by (auto simp: validate_field_def field_raises_def Let_def split: option.splits sum.splits if_splits)

lemma validate_loop_frame:
  "rules_obj (snd (validate_loop rs s)) = rules_obj s \<and>
   data_obj (snd (validate_loop rs s)) = data_obj s"
proof (induction rs arbitrary: s)
  case Nil
  show ?case by simp
next
  case (Cons fr rs)
  obtain r s' where step: "validate_field fr s = (r, s')" by (cases "validate_field fr s")
  have fr: "rules_obj s' = rules_obj s" "data_obj s' = data_obj s"
    using validate_field_frame [of fr s] step by simp_all
  show ?case
  proof (cases r)
    case None
    with step Cons.IH [of s'] fr show ?thesis by simp
  next
    case (Some e)
    with step fr show ?thesis by simp
  qed
qed

lemma validate_loop_returns:
  assumes "\<forall>fr \<in> set rs. field_raises (data_obj s) fr = None"
  shows "validate_loop rs s =
           (None, s\<lparr>errors_obj := errors_obj s @ concat (map (spec_field_errors (data_obj s)) rs)\<rparr>)"
  using assms
proof (induction rs arbitrary: s)
  case Nil
  show ?case by simp
next
  case (Cons fr rs)
  let ?s' = "s\<lparr>errors_obj := errors_obj s @ spec_field_errors (data_obj s) fr\<rparr>"
  have step: "validate_field fr s = (None, ?s')"
    using Cons.prems by (simp add: validate_field_returns)
  have "\<forall>fr \<in> set rs. field_raises (data_obj ?s') fr = None"
    using Cons.prems by simp
  from Cons.IH [OF this] step show ?case by simp
qed

lemma validate_loop_raises:
  assumes "fr \<in> set rs" "field_raises (data_obj s) fr \<noteq> None"
  shows "\<exists>e. fst (validate_loop rs s) = Some e"
  using assms
proof (induction rs arbitrary: s)
  case Nil
  then show ?case by simp
next
  case (Cons a rs)
  show ?case
  proof (cases "field_raises (data_obj s) a")
    case (Some e)
    then show ?thesis by (simp add: validate_field_raises)
  next
    case None
    let ?s' = "s\<lparr>errors_obj := errors_obj s @ spec_field_errors (data_obj s) a\<rparr>"
    have step: "validate_field a s = (None, ?s')"
      using None by (simp add: validate_field_returns)
    from None Cons.prems have "fr \<in> set rs" by auto
    moreover have "field_raises (data_obj ?s') fr \<noteq> None" using Cons.prems by simp
    ultimately have "\<exists>e. fst (validate_loop rs ?s') = Some e" by (rule Cons.IH)
    with step show ?thesis by simp
  qed
qed

lemma validate_returns_iff:
  "validate data = Inr errs \<longleftrightarrow>
     (\<forall>fr \<in> set VALIDATION_RULES. field_raises data fr = None) \<and>
     errs = concat (map (spec_field_errors data) VALIDATION_RULES)"
proof (cases "\<forall>fr \<in> set VALIDATION_RULES. field_raises data fr = None")
  case True
  then show ?thesis
    using validate_loop_returns [of VALIDATION_RULES "request_state data"]
    by (auto simp: validate_def validate_data_def request_state_def Let_def)
next
  case False
  then obtain fr where "fr \<in> set VALIDATION_RULES" "field_raises data fr \<noteq> None" by blast
  then have "\<exists>e. fst (validate_loop VALIDATION_RULES (request_state data)) = Some e"
    using validate_loop_raises [of fr VALIDATION_RULES "request_state data"]
    by (simp add: request_state_def)
  then obtain e s' where "validate_loop VALIDATION_RULES (request_state data) = (Some e, s')"
    by (metis prod.collapse)
  then have "validate data = Inl e"
    by (simp add: validate_def validate_data_def request_state_def Let_def)
  with False show ?thesis by simp
qed

subsection \<open>What the coercion can raise\<close>

lemma int_of_str_error: "int_of_str s = Inl e \<Longrightarrow> e = ValueError"
  by (auto simp: int_of_str_def Let_def split: option.splits if_splits prod.splits)

lemma py_int_error:
  "py_int v = Inl e \<Longrightarrow> e = ValueError \<or> e = TypeError \<or> e = OverflowError"
  by (induction v rule: py_int.induct) (auto dest: int_of_str_error)

lemma py_int_overflow_iff:
  "py_int v = Inl OverflowError \<longleftrightarrow> v = JFloat PosInf \<or> v = JFloat NegInf"
  by (induction v rule: py_int.induct) (auto dest: int_of_str_error)

subsection \<open>Valid records\<close>

lemma valid_field_no_raise: "valid_field data fr \<Longrightarrow> field_raises data fr = None"
  by (auto simp: valid_field_def field_raises_def split: option.splits sum.splits)

lemma valid_field_no_errors: "valid_field data fr \<Longrightarrow> spec_field_errors data fr = []"
  by (auto simp: valid_field_def spec_field_errors_def within_rule_def Let_def
      split: option.splits sum.splits)

lemma example_valid: "valid_record example_record"
  by code_simp

text \<open>
  C1. A record that holds all thirteen fields of the table, each with a value that
  \<^verbatim>\<open>int\<close> coerces and whose coerced value is within the field's inclusive range or
  among its allowed values, is answered with the empty list of errors.
\<close>

theorem validate_accepts_valid_record:
  assumes "valid_record data"
  shows "validate data = Inr []"
proof -
  have all: "\<forall>fr \<in> set VALIDATION_RULES. valid_field data fr"
    using assms by (simp add: valid_record_def list_all_iff)
  then have "\<forall>fr \<in> set VALIDATION_RULES. field_raises data fr = None"
    by (simp add: valid_field_no_raise)
  moreover have "concat (map (spec_field_errors data) VALIDATION_RULES) = []"
    using all by (simp add: valid_field_no_errors)
  ultimately show ?thesis by (simp add: validate_returns_iff)
qed

theorem validate_accepts_valid_record_witness:
  "valid_record example_record \<and> validate example_record = Inr []"
  using validate_accepts_valid_record [OF example_valid] example_valid by simp

text \<open>
  C6. For the record of the first scenario the validator returns the empty list, and
  the feature vector is the thirteen values 55, 1, 2, 130, 250, 0, 1, 150, 0, 1, 1, 0, 2,
  in the order the table declares its fields.
\<close>

theorem scenario_one:
  "validate example_record = Inr [] \<and>
   feature_values example_record = Inr [55, 1, 2, 130, 250, 0, 1, 150, 0, 1, 1, 0, 2] \<and>
   map fst VALIDATION_RULES =
     [''age'', ''sex'', ''cp'', ''trestbps'', ''chol'', ''fbs'', ''restecg'',
      ''thalach'', ''exang'', ''oldpeak'', ''slope'', ''ca'', ''thal'']"
  by code_simp

section \<open>Properties of the endpoint and of the call\<close>

lemma validate_data_frame:
  "rules_obj (snd (validate_data s)) = rules_obj s \<and> data_obj (snd (validate_data s)) = data_obj s"
proof -
  let ?s1 = "s\<lparr>errors_obj := []\<rparr>"
  obtain r s2 where loop: "validate_loop (rules_obj ?s1) ?s1 = (r, s2)"
    by (cases "validate_loop (rules_obj ?s1) ?s1")
  have "rules_obj s2 = rules_obj ?s1" "data_obj s2 = data_obj ?s1"
    using validate_loop_frame [of "rules_obj ?s1" ?s1] loop by simp_all
  moreover have "snd (validate_data s) = s2"
    using loop by (cases r) (simp_all add: validate_data_def Let_def)
  ultimately show ?thesis by simp
qed

lemma validate_data_result:
  "validate data = r \<Longrightarrow> \<exists>s. validate_data (request_state data) = (r, s) \<and> data_obj s = data"
  using validate_data_frame [of "request_state data"]
  by (cases "validate_data (request_state data)") (simp add: validate_def request_state_def)

text \<open>
  C9. A call of the validator leaves the rule table and the request dictionary as they
  were, and a second call, made in the state the first one left, returns what the
  first one returned: the same error list, or the same exception.
\<close>

theorem validate_data_pure:
  "rules_obj (snd (validate_data s)) = rules_obj s \<and>
   data_obj (snd (validate_data s)) = data_obj s \<and>
   fst (validate_data (snd (validate_data s))) = fst (validate_data s)"
proof -
  let ?s' = "snd (validate_data s)"
  have frame: "rules_obj ?s' = rules_obj s" "data_obj ?s' = data_obj s"
    using validate_data_frame [of s] by simp_all
  then have "?s'\<lparr>errors_obj := []\<rparr> = s\<lparr>errors_obj := []\<rparr>"
    by (intro vstate_eqI) simp_all
  then have "validate_data ?s' = validate_data s"
    by (simp add: validate_data_def)
  with frame show ?thesis by simp
qed

text \<open>
  C2. When the validator returns a non-empty list of errors, the endpoint answers with
  the body \<^verbatim>\<open>{"success": false, "errors": [...]}\<close>, the errors being the messages of
  that list in its order, and status 400, and no call to the classifier is made:
  neither the label prediction nor the probability prediction.
\<close>

theorem invalid_request_answered_400_without_model:
  assumes "validate data = Inr errs" and "errs \<noteq> []"
  shows "predict m now data =
           ((OObj [(''success'', OBool False), (''errors'', OList (map OStr errs))], 400), [])"
proof -
  obtain s where "validate_data (request_state data) = (Inr errs, s)"
    using validate_data_result [OF assms(1)] by blast
  with assms(2) show ?thesis
    by (simp add: predict_def predict_try_def failure_body_def)
qed

lemma scenario_two_errors:
  "validate scenario_two_record =
     Inr [''Missing required field: age'', ''sex must be one of [0, 1]'']"
  by code_simp

theorem invalid_request_answered_400_without_model_witness:
  "validate scenario_two_record =
     Inr [''Missing required field: age'', ''sex must be one of [0, 1]''] \<and>
   predict example_model example_now scenario_two_record =
     ((OObj [(''success'', OBool False),
             (''errors'', OList [OStr ''Missing required field: age'',
                                 OStr ''sex must be one of [0, 1]''])],
       400),
      [])"
proof -
  have ne: "[''Missing required field: age'', ''sex must be one of [0, 1]''] \<noteq> []"
    by simp
  from invalid_request_answered_400_without_model [OF scenario_two_errors ne]
    scenario_two_errors
  show ?thesis by simp
qed

text \<open>
  C7. The claim is that the validator returns a list of errors for every record and
  never raises. At the otherwise valid record whose age is the float infinity (the
  JSON number \<^verbatim>\<open>1e999\<close>) the coercion raises \<^verbatim>\<open>OverflowError\<close>, which the
  \<^verbatim>\<open>except\<close> clause does not catch: the validator raises, and the endpoint answers
  with the internal error and status 500.
\<close>

theorem validate_raises_on_infinite_float:
  "validate (example_record(''age'' \<mapsto> JFloat PosInf)) = Inl OverflowError \<and>
   predict example_model example_now (example_record(''age'' \<mapsto> JFloat PosInf)) =
     ((internal_error_body, 500), [])"
  by code_simp

text \<open>
  C3. The claim is that a present value that cannot be coerced to an integer is
  reported by exactly one type message. Negative infinity cannot be coerced, and at
  the otherwise valid record whose chol is negative infinity the validator returns no
  list at all, so in particular not the list holding the type message for chol.
\<close>

theorem infinite_float_gets_no_type_message:
  "py_int (JFloat NegInf) = Inl OverflowError \<and>
   validate (example_record(''chol'' \<mapsto> JFloat NegInf)) \<noteq> Inr [type_msg ''chol'' PyInt] \<and>
   validate (example_record(''chol'' \<mapsto> JFloat NegInf)) = Inl OverflowError"
  by code_simp

lemma subscript_0: "subscript xs 0 = Inr x \<longleftrightarrow> (\<exists>rest. xs = x # rest)"
  by (cases xs) (auto simp: subscript_def)

lemma subscript_0_err: "subscript xs 0 = Inl e \<Longrightarrow> xs = []"
  by (cases xs) (auto simp: subscript_def)

lemma subscript_1: "subscript xs (Suc 0) = Inr y \<longleftrightarrow> (\<exists>a rest. xs = a # y # rest)"
proof (cases xs)
  case Nil
  then show ?thesis by (simp add: subscript_def)
next
  case (Cons a ys)
  then show ?thesis by (cases ys) (auto simp: subscript_def)
qed

text \<open>
  C8. The endpoint answers with status 200 exactly when the record validates, the
  feature vector is built, and the classifier returns at least one label and a first
  row of at least two probabilities. The body then carries \<^verbatim>\<open>success: true\<close>, the
  first label as the prediction, the first probability of the row under
  \<^verbatim>\<open>negative\<close> and the second under \<^verbatim>\<open>positive\<close>, whatever their values and
  whatever the label.
\<close>

theorem success_response_labels_by_position:
  "predict m now data = ((body, 200), calls) \<longleftrightarrow>
     (\<exists>row label rest p0 p1 ps rows.
        validate data = Inr [] \<and>
        feature_values data = Inr row \<and>
        model_predict m [row] = Inr (label # rest) \<and>
        model_predict_proba m [row] = Inr ((p0 # p1 # ps) # rows) \<and>
        body =
          OObj [(''success'', OBool True),
                (''prediction'', OInt label),
                (''probability'',
                 OObj [(''negative'', OFloat p0), (''positive'', OFloat p1)]),
                (''timestamp'', OStr now)] \<and>
        calls = [PredictCall [row], PredictProbaCall [row]])"
proof
  assume ok: "predict m now data = ((body, 200), calls)"
  obtain r s where vd: "validate_data (request_state data) = (r, s)" and ds: "data_obj s = data"
    using validate_data_result [of data "validate data"] by blast
  have vr: "validate data = r" using vd by (simp add: validate_def)
  from ok vd ds show "\<exists>row label rest p0 p1 ps rows.
        validate data = Inr [] \<and>
        feature_values data = Inr row \<and>
        model_predict m [row] = Inr (label # rest) \<and>
        model_predict_proba m [row] = Inr ((p0 # p1 # ps) # rows) \<and>
        body =
          OObj [(''success'', OBool True),
                (''prediction'', OInt label),
                (''probability'',
                 OObj [(''negative'', OFloat p0), (''positive'', OFloat p1)]),
                (''timestamp'', OStr now)] \<and>
        calls = [PredictCall [row], PredictProbaCall [row]]"
    unfolding vr
    by (auto simp: predict_def predict_try_def Let_def subscript_0 subscript_1 success_body_def
        split: sum.splits if_splits prod.splits)
next
  assume "\<exists>row label rest p0 p1 ps rows.
        validate data = Inr [] \<and>
        feature_values data = Inr row \<and>
        model_predict m [row] = Inr (label # rest) \<and>
        model_predict_proba m [row] = Inr ((p0 # p1 # ps) # rows) \<and>
        body =
          OObj [(''success'', OBool True),
                (''prediction'', OInt label),
                (''probability'',
                 OObj [(''negative'', OFloat p0), (''positive'', OFloat p1)]),
                (''timestamp'', OStr now)] \<and>
        calls = [PredictCall [row], PredictProbaCall [row]]"
  then obtain row label rest p0 p1 ps rows where
    h: "validate data = Inr []" "feature_values data = Inr row"
       "model_predict m [row] = Inr (label # rest)"
       "model_predict_proba m [row] = Inr ((p0 # p1 # ps) # rows)"
       "body =
          OObj [(''success'', OBool True),
                (''prediction'', OInt label),
                (''probability'',
                 OObj [(''negative'', OFloat p0), (''positive'', OFloat p1)]),
                (''timestamp'', OStr now)]"
       "calls = [PredictCall [row], PredictProbaCall [row]]"
    by blast
  obtain s where vd: "validate_data (request_state data) = (Inr [], s)" and ds: "data_obj s = data"
    using validate_data_result [OF h(1)] by blast
  show "predict m now data = ((body, 200), calls)"
    using h vd ds
    by (simp add: predict_def predict_try_def Let_def subscript_def success_body_def)
qed

lemma example_features:
  "feature_values example_record = Inr [55, 1, 2, 130, 250, 0, 1, 150, 0, 1, 1, 0, 2]"
  by code_simp

lemma example_validates: "validate example_record = Inr []"
  by code_simp

theorem success_response_labels_by_position_witness:
  "predict example_model example_now example_record =
     ((OObj [(''success'', OBool True),
             (''prediction'', OInt 0),
             (''probability'',
              OObj [(''negative'', OFloat ''0.25''), (''positive'', OFloat ''0.75'')]),
             (''timestamp'', OStr example_now)],
       200),
      [PredictCall [[55, 1, 2, 130, 250, 0, 1, 150, 0, 1, 1, 0, 2]],
       PredictProbaCall [[55, 1, 2, 130, 250, 0, 1, 150, 0, 1, 1, 0, 2]]])"
  using success_response_labels_by_position
          [of example_model example_now example_record
              "OObj [(''success'', OBool True),
             (''prediction'', OInt 0),
             (''probability'',
              OObj [(''negative'', OFloat ''0.25''), (''positive'', OFloat ''0.75'')]),
             (''timestamp'', OStr example_now)]"
              "[PredictCall [[55, 1, 2, 130, 250, 0, 1, 150, 0, 1, 1, 0, 2]],
                PredictProbaCall [[55, 1, 2, 130, 250, 0, 1, 150, 0, 1, 1, 0, 2]]]"]
        example_features example_validates
  by (simp add: example_model_def)

section \<open>Messages and the fields they are about\<close>

lemma takeWhile_name:
  "no_space f \<Longrightarrow> takeWhile (\<lambda>c. c \<noteq> CHR '' '') (f @ CHR '' '' # rest) = f"
  by (auto simp: no_space_def takeWhile_tail)

lemma mentions_must: "mentions f (f @ '' must '' @ rest)"
  by (simp add: mentions_def)

lemma mentions_missing: "mentions f (missing_msg f)"
  by (simp add: mentions_def)

lemma own_messages:
  "m \<in> set (spec_field_errors data (f, r)) \<Longrightarrow> mentions f m"
  by (auto simp: spec_field_errors_def Let_def mentions_def missing_msg_def type_msg_def
        min_msg_def max_msg_def allowed_msg_def
      split: option.splits sum.splits if_splits)

lemma must_prefix_name:
  assumes "no_space f" and "take (length f + 6) m = f @ '' must ''"
  shows "takeWhile (\<lambda>c. c \<noteq> CHR '' '') m = f"
proof -
  have "m = (f @ '' must '') @ drop (length f + 6) m"
    using assms(2) append_take_drop_id [of "length f + 6" m] by simp
  then have "m = f @ CHR '' '' # (''must '' @ drop (length f + 6) m)" by simp
  then show ?thesis using takeWhile_name [OF assms(1)] by metis
qed

lemma must_message_name:
  "no_space g \<Longrightarrow> takeWhile (\<lambda>c. c \<noteq> CHR '' '') (g @ '' must '' @ rest) = g"
  using takeWhile_name [of g "''must '' @ rest"] by simp

lemma missing_not_must:
  assumes "no_space f"
  shows "take (length f + 6) (missing_msg g) \<noteq> f @ '' must ''"
proof
  assume a: "take (length f + 6) (missing_msg g) = f @ '' must ''"
  have "takeWhile (\<lambda>c. c \<noteq> CHR '' '') (missing_msg g) = ''Missing''"
    by (simp add: missing_msg_def)
  with must_prefix_name [OF assms a] have f: "f = ''Missing''" by simp
  from a show False unfolding f by (simp add: missing_msg_def)
qed

lemma must_not_missing:
  assumes "no_space g"
  shows "g @ '' must '' @ rest \<noteq> missing_msg f"
proof
  assume a: "g @ '' must '' @ rest = missing_msg f"
  have "takeWhile (\<lambda>c. c \<noteq> CHR '' '') (missing_msg f) = ''Missing''"
    by (simp add: missing_msg_def)
  with must_message_name [OF assms, of rest] a have g: "g = ''Missing''" by simp
  from a show False unfolding g by (simp add: missing_msg_def)
qed

lemma must_other_field:
  assumes "no_space f" "no_space g" "f \<noteq> g"
  shows "\<not> mentions f (g @ '' must '' @ rest)"
proof
  assume "mentions f (g @ '' must '' @ rest)"
  then consider "g @ '' must '' @ rest = missing_msg f"
    | "take (length f + 6) (g @ '' must '' @ rest) = f @ '' must ''"
    by (auto simp: mentions_def)
  then show False
  proof cases
    case 1
    then show False using must_not_missing [OF assms(2)] by blast
  next
    case 2
    from must_prefix_name [OF assms(1) 2] must_message_name [OF assms(2), of rest]
    show False using assms(3) by simp
  qed
qed

lemma missing_other_field:
  assumes "no_space f" "f \<noteq> g"
  shows "\<not> mentions f (missing_msg g)"
  using assms missing_not_must [OF assms(1), of g]
  by (auto simp: mentions_def missing_msg_def)

lemma other_messages:
  assumes "no_space f" "no_space g" "f \<noteq> g"
    and "m \<in> set (spec_field_errors data (g, r))"
  shows "\<not> mentions f m"
proof -
  from assms(4) consider "m = missing_msg g" | rest where "m = g @ '' must '' @ rest"
    by (auto simp: spec_field_errors_def Let_def type_msg_def min_msg_def max_msg_def
          allowed_msg_def split: option.splits sum.splits if_splits)
  then show ?thesis
  proof cases
    case 1
    then show ?thesis using missing_other_field [OF assms(1) assms(3)] by simp
  next
    case 2
    then show ?thesis using must_other_field [OF assms(1-3)] by simp
  qed
qed

lemma filter_mentions_concat:
  assumes "distinct (map fst rs)" and "\<forall>g \<in> set (map fst rs). no_space g"
    and "(f, r) \<in> set rs"
  shows "filter (mentions f) (concat (map (spec_field_errors data) rs)) =
           spec_field_errors data (f, r)"
  using assms
proof (induction rs)
  case Nil
  then show ?case by simp
next
  case (Cons a rs)
  obtain g r' where a: "a = (g, r')" by (cases a)
  have nf: "no_space f" using Cons.prems(2,3) by force
  show ?case
  proof (cases "(f, r) = a")
    case True
    then have fg: "g = f" "r' = r" using a by simp_all
    have own: "filter (mentions f) (spec_field_errors data (f, r)) = spec_field_errors data (f, r)"
      using own_messages by (simp add: filter_id_conv)
    have rest: "filter (mentions f) (concat (map (spec_field_errors data) rs)) = []"
    proof -
      have "\<not> mentions f m" if "m \<in> set (concat (map (spec_field_errors data) rs))" for m
      proof -
        from that obtain h rh where h: "(h, rh) \<in> set rs" "m \<in> set (spec_field_errors data (h, rh))"
          by auto
        have "h \<noteq> f" using Cons.prems(1) h(1) a fg by force
        moreover have "no_space h" using Cons.prems(2) h(1) by force
        ultimately show ?thesis using other_messages [OF nf _ _ h(2)] by blast
      qed
      then show ?thesis by (simp add: filter_empty_conv)
    qed
    show ?thesis using own rest a fg by simp
  next
    case False
    then have mem: "(f, r) \<in> set rs" using Cons.prems(3) by simp
    have "g \<noteq> f" using Cons.prems(1) mem a by force
    moreover have "no_space g" using Cons.prems(2) a by simp
    ultimately have "filter (mentions f) (spec_field_errors data (g, r')) = []"
      using other_messages [OF nf, of g _ data r'] by (auto simp: filter_empty_conv)
    moreover have "filter (mentions f) (concat (map (spec_field_errors data) rs)) =
        spec_field_errors data (f, r)"
      using Cons.IH Cons.prems mem by simp
    ultimately show ?thesis using a by simp
  qed
qed

lemma table_names: "distinct (map fst VALIDATION_RULES) \<and> (\<forall>g \<in> set (map fst VALIDATION_RULES). no_space g)"
  by (simp add: VALIDATION_RULES_def no_space_def)

lemma errors_about_field:
  assumes "validate data = Inr errs" and "(f, r) \<in> set VALIDATION_RULES"
  shows "filter (mentions f) errs = spec_field_errors data (f, r)"
  using assms filter_mentions_concat [of VALIDATION_RULES f r data] table_names
  by (simp add: validate_returns_iff)

lemma table_ranged:
  assumes "(f, r) \<in> set VALIDATION_RULES" "rule_min r = Some lo" "rule_max r = Some hi"
  shows "lo \<le> hi \<and> allowed_values r = None"
  using assms by (auto simp: VALIDATION_RULES_def ranged_def choice_def)

lemma table_types: "(f, r) \<in> set VALIDATION_RULES \<Longrightarrow> rule_type r = PyInt \<and> required r"
  by (auto simp: VALIDATION_RULES_def ranged_def choice_def)

section \<open>Properties of the checks\<close>

subsection \<open>Short circuit within one field\<close>

text \<open>
  Whenever the validator returns, a missing field of the table is reported by its
  missing message alone, and a present value whose coercion fails by its type message
  alone.
\<close>

lemma missing_field_short_circuit:
  assumes "(f, r) \<in> set VALIDATION_RULES" "data f = None" "validate data = Inr errs"
  shows "filter (mentions f) errs = [missing_msg f]"
  using errors_about_field [OF assms(3,1)] assms(2) table_types [OF assms(1)]
  by (simp add: spec_field_errors_def)

lemma uncoercible_field_short_circuit:
  assumes "(f, r) \<in> set VALIDATION_RULES" "data f = Some raw" "py_int raw = Inl e"
    and "validate data = Inr errs"
  shows "filter (mentions f) errs = [type_msg f PyInt]"
  using errors_about_field [OF assms(4,1)] assms(2,3) table_types [OF assms(1)]
  by (simp add: spec_field_errors_def)

subsection \<open>When the validator raises\<close>

text \<open>
  The validator raises exactly when some field of the table holds an infinite float.
\<close>

lemma validate_raises_iff:
  "(\<exists>e. validate data = Inl e) \<longleftrightarrow>
     (\<exists>fr \<in> set VALIDATION_RULES.
        data (fst fr) = Some (JFloat PosInf) \<or> data (fst fr) = Some (JFloat NegInf))"
proof -
  have raises: "field_raises data fr \<noteq> None \<longleftrightarrow>
      (data (fst fr) = Some (JFloat PosInf) \<or> data (fst fr) = Some (JFloat NegInf))"
    if "fr \<in> set VALIDATION_RULES" for fr
  proof -
    obtain f r where fr: "fr = (f, r)" by (cases fr)
    have t: "rule_type r = PyInt" using that table_types fr by blast
    show ?thesis
    proof (cases "data f")
      case None
      then show ?thesis by (simp add: field_raises_def fr)
    next
      case (Some raw)
      show ?thesis
      proof (cases "py_int raw")
        case (Inl e)
        with py_int_error [OF Inl] py_int_overflow_iff [of raw] Some t show ?thesis
          by (auto simp: field_raises_def fr)
      next
        case (Inr v)
        with py_int_overflow_iff [of raw] Some t show ?thesis
          by (auto simp: field_raises_def fr)
      qed
    qed
  qed
  have "(\<exists>e. validate data = Inl e) \<longleftrightarrow> (\<nexists>errs. validate data = Inr errs)"
    by (cases "validate data") simp_all
  also have "\<dots> \<longleftrightarrow> (\<exists>fr \<in> set VALIDATION_RULES. field_raises data fr \<noteq> None)"
    by (auto simp: validate_returns_iff)
  also have "\<dots> \<longleftrightarrow> (\<exists>fr \<in> set VALIDATION_RULES.
        data (fst fr) = Some (JFloat PosInf) \<or> data (fst fr) = Some (JFloat NegInf))"
    using raises by blast
  finally show ?thesis .
qed

subsection \<open>Range checks\<close>

text \<open>
  For a field whose rule has both bounds and whose value coerces to \<open>v\<close>, the loop body
  appends the minimum message exactly when \<open>v\<close> is below the minimum and, whatever that
  check did, the maximum message exactly when \<open>v\<close> is above the maximum. For such a
  field of the table, whenever the validator returns, the messages about the field
  are exactly these: none when \<open>v\<close> equals a bound, the minimum message below the
  minimum, the maximum message above the maximum.
\<close>

lemma range_checks_in_returned_list:
  assumes "rule_min r = Some lo" and "rule_max r = Some hi"
    and "data f = Some raw" and "call_type (rule_type r) raw = Inr v"
  shows "validate_field (f, r) \<lparr>rules_obj = rs, data_obj = data, errors_obj = es\<rparr> =
           (None,
            \<lparr>rules_obj = rs, data_obj = data,
             errors_obj = es @ (if v < lo then [min_msg f lo] else [])
                             @ (if v > hi then [max_msg f hi] else [])
                             @ (case allowed_values r of
                                  None \<Rightarrow> []
                                | Some vs \<Rightarrow> if v \<notin> set vs then [allowed_msg f vs] else [])\<rparr>)
         \<and> ((f, r) \<in> set VALIDATION_RULES \<longrightarrow>
              (\<forall>errs. validate data = Inr errs \<longrightarrow>
                 filter (mentions f) errs =
                   (if v < lo then [min_msg f lo] else []) @ (if v > hi then [max_msg f hi] else [])
                 \<and> (v = lo \<or> v = hi \<longrightarrow> filter (mentions f) errs = [])
                 \<and> (v < lo \<longrightarrow> min_msg f lo \<in> set errs)
                 \<and> (v > hi \<longrightarrow> max_msg f hi \<in> set errs)))"
proof (intro conjI impI allI)
  let ?s = "\<lparr>rules_obj = rs, data_obj = data, errors_obj = es\<rparr>"
  have "field_raises (data_obj ?s) (f, r) = None"
    using assms by (simp add: field_raises_def)
  from validate_field_returns [OF this] assms
  show "validate_field (f, r) ?s =
           (None,
            \<lparr>rules_obj = rs, data_obj = data,
             errors_obj = es @ (if v < lo then [min_msg f lo] else [])
                             @ (if v > hi then [max_msg f hi] else [])
                             @ (case allowed_values r of
                                  None \<Rightarrow> []
                                | Some vs \<Rightarrow> if v \<notin> set vs then [allowed_msg f vs] else [])\<rparr>)"
    by (simp add: spec_field_errors_def)
next
  fix errs
  assume mem: "(f, r) \<in> set VALIDATION_RULES" and ret: "validate data = Inr errs"
  have tab: "lo \<le> hi" "allowed_values r = None"
    using table_ranged [OF mem assms(1,2)] by simp_all
  have eq: "filter (mentions f) errs =
      (if v < lo then [min_msg f lo] else []) @ (if v > hi then [max_msg f hi] else [])"
    using errors_about_field [OF ret mem] assms tab by (simp add: spec_field_errors_def)
  show "filter (mentions f) errs =
      (if v < lo then [min_msg f lo] else []) @ (if v > hi then [max_msg f hi] else [])"
    by (rule eq)
  show "filter (mentions f) errs = []" if "v = lo \<or> v = hi"
    using that eq tab by auto
  have sub: "set (filter (mentions f) errs) \<subseteq> set errs" by auto
  show "min_msg f lo \<in> set errs" if "v < lo"
    using that eq sub by auto
  show "max_msg f hi \<in> set errs" if "v > hi"
    using that eq sub by auto
qed

lemma below_min_errors: "validate below_min_record = Inr [''age must be at least 18'']"
  by code_simp

lemma at_max_errors: "validate at_max_record = Inr []"
  by code_simp

lemma range_checks_in_returned_list_examples:
  "validate_field (''t'', crossed_rule)
      \<lparr>rules_obj = [], data_obj = [''t'' \<mapsto> JInt 7], errors_obj = []\<rparr> =
     (None, \<lparr>rules_obj = [], data_obj = [''t'' \<mapsto> JInt 7],
             errors_obj = [''t must be at least 10'', ''t must be no more than 5'']\<rparr>) \<and>
   validate below_min_record = Inr [''age must be at least 18''] \<and>
   filter (mentions ''age'') [''age must be at least 18''] = [''age must be at least 18''] \<and>
   validate at_max_record = Inr [] \<and>
   filter (mentions ''age'') [] = []"
proof -
  have m10: "min_msg ''t'' 10 = ''t must be at least 10''"
    and m5: "max_msg ''t'' 5 = ''t must be no more than 5''"
    and m18: "min_msg ''age'' 18 = ''age must be at least 18''"
    by code_simp+
  have mem: "(''age'', ranged 18 100) \<in> set VALIDATION_RULES"
    by (simp add: VALIDATION_RULES_def)
  have lo: "rule_min (ranged 18 100) = Some 18" and hi: "rule_max (ranged 18 100) = Some 100"
    by (simp_all add: ranged_def)
  have clo: "rule_min crossed_rule = Some 10" and chi: "rule_max crossed_rule = Some 5"
    by (simp_all add: crossed_rule_def ranged_def)
  have c7: "[''t'' \<mapsto> JInt 7] ''t'' = Some (JInt 7)"
    and cv: "call_type (rule_type crossed_rule) (JInt 7) = Inr 7"
    by (simp_all add: crossed_rule_def ranged_def)
  have a17: "below_min_record ''age'' = Some (JInt 17)"
    and a100: "at_max_record ''age'' = Some (JInt 100)"
    by (simp_all add: below_min_record_def at_max_record_def)
  have v17: "call_type (rule_type (ranged 18 100)) (JInt 17) = Inr 17"
    and v100: "call_type (rule_type (ranged 18 100)) (JInt 100) = Inr 100"
    by (simp_all add: ranged_def)
  have "validate_field (''t'', crossed_rule)
      \<lparr>rules_obj = [], data_obj = [''t'' \<mapsto> JInt 7], errors_obj = []\<rparr> =
     (None, \<lparr>rules_obj = [], data_obj = [''t'' \<mapsto> JInt 7],
             errors_obj = [''t must be at least 10'', ''t must be no more than 5'']\<rparr>)"
    using range_checks_in_returned_list
            [where data = "[''t'' \<mapsto> JInt 7]" and f = "''t''" and rs = "[]" and es = "[]",
             OF clo chi c7 cv]
    by (simp add: crossed_rule_def ranged_def m10 m5)
  moreover have "filter (mentions ''age'') [''age must be at least 18''] =
      [''age must be at least 18'']"
    using range_checks_in_returned_list
            [where data = below_min_record and f = "''age''", OF lo hi a17 v17] mem below_min_errors
    by (simp add: m18)
  moreover have "filter (mentions ''age'') [] = []"
    using range_checks_in_returned_list
            [where data = at_max_record and f = "''age''", OF lo hi a100 v100] mem at_max_errors
    by simp
  ultimately show ?thesis using below_min_errors at_max_errors by simp
qed

text \<open>
  C4. The claim is that for every record the validator emits the minimum message for a
  value below the minimum and the maximum message for a value above the maximum. At
  the record of the first scenario with age 17 and an infinite thal, the minimum
  message for age is appended to the list and the list is then lost: the coercion of
  thal raises, the validator returns no list, and the endpoint answers with the
  internal error and status 500. With an infinite age and trestbps 300 the
  validator raises at age, before the bounds of trestbps are looked at.
\<close>

theorem bound_message_lost_on_infinite_float:
  "py_int (JInt 17) = Inr 17 \<and>
   errors_obj (snd (validate_data (request_state (below_min_record(''thal'' \<mapsto> JFloat PosInf))))) =
     [''age must be at least 18''] \<and>
   validate (below_min_record(''thal'' \<mapsto> JFloat PosInf)) = Inl OverflowError \<and>
   predict example_model example_now (below_min_record(''thal'' \<mapsto> JFloat PosInf)) =
     ((OObj [(''success'', OBool False), (''error'', OStr ''Internal server error'')], 500), []) \<and>
   validate (example_record(''age'' \<mapsto> JFloat PosInf, ''trestbps'' \<mapsto> JInt 300)) =
     Inl OverflowError \<and>
   errors_obj (snd (validate_data (request_state
     (example_record(''age'' \<mapsto> JFloat PosInf, ''trestbps'' \<mapsto> JInt 300))))) = []"
  by code_simp

subsection \<open>Accumulation across the fields\<close>

lemma allowed_msg_sex: "allowed_msg ''sex'' [0, 1] = ''sex must be one of [0, 1]''"
  by code_simp

text \<open>
  Whenever the validator returns, its list is the concatenation, in the order the
  table declares the fields, of what each field contributes, so every field of the
  table is checked and the messages about it are all in the list. In particular a
  record without age whose sex coerces to 5 gets the missing message for age and then
  the allowed-values message for sex.
\<close>

lemma returned_list_in_table_order:
  assumes "validate data = Inr errs"
  shows "errs = concat (map (spec_field_errors data) VALIDATION_RULES) \<and>
         (\<forall>f r. (f, r) \<in> set VALIDATION_RULES \<longrightarrow>
                 filter (mentions f) errs = spec_field_errors data (f, r)) \<and>
         (data ''age'' = None \<and> (\<exists>raw. data ''sex'' = Some raw \<and> py_int raw = Inr 5) \<longrightarrow>
            (\<exists>rest. errs = ''Missing required field: age'' # ''sex must be one of [0, 1]'' # rest))"
proof (intro conjI allI impI)
  show all: "errs = concat (map (spec_field_errors data) VALIDATION_RULES)"
    using assms by (simp add: validate_returns_iff)
  show "filter (mentions f) errs = spec_field_errors data (f, r)"
    if "(f, r) \<in> set VALIDATION_RULES" for f r
    using errors_about_field [OF assms that] .
  show "\<exists>rest. errs = ''Missing required field: age'' # ''sex must be one of [0, 1]'' # rest"
    if h: "data ''age'' = None \<and> (\<exists>raw. data ''sex'' = Some raw \<and> py_int raw = Inr 5)"
  proof -
    from h obtain raw where raw: "data ''sex'' = Some raw" "py_int raw = Inr 5" by blast
    have age: "spec_field_errors data (''age'', ranged 18 100) = [''Missing required field: age'']"
      using h by (simp add: spec_field_errors_def ranged_def missing_msg_def)
    have sex: "spec_field_errors data (''sex'', choice [0, 1]) = [''sex must be one of [0, 1]'']"
      using raw allowed_msg_sex by (simp add: spec_field_errors_def choice_def)
    show ?thesis
      unfolding all by (simp add: VALIDATION_RULES_def age sex)
  qed
qed

lemma returned_list_in_table_order_example:
  "validate scenario_two_record =
     Inr [''Missing required field: age'', ''sex must be one of [0, 1]''] \<and>
   concat (map (spec_field_errors scenario_two_record) VALIDATION_RULES) =
     [''Missing required field: age'', ''sex must be one of [0, 1]''] \<and>
   scenario_two_record ''age'' = None \<and>
   scenario_two_record ''sex'' = Some (JInt 5)"
proof -
  note t = returned_list_in_table_order [OF scenario_two_errors]
  have "scenario_two_record ''age'' = None" "scenario_two_record ''sex'' = Some (JInt 5)"
    by (simp_all add: scenario_two_record_def)
  with t scenario_two_errors show ?thesis by simp
qed

text \<open>
  C5. The claim is that the validator checks every field of the table and accumulates
  all errors, so that a record without age and with sex 5 gets the missing message for
  age and then the allowed-values message for sex. At the record of the second
  scenario with an infinite thal both messages are appended and then lost: the
  coercion of thal raises, the validator returns no list, and the endpoint answers
  with the internal error and status 500. With an infinite age and sex 5 the
  validator raises at age and sex is never checked.
\<close>

theorem accumulated_errors_lost_on_infinite_float:
  "scenario_two_record ''age'' = None \<and>
   scenario_two_record ''sex'' = Some (JInt 5) \<and>
   errors_obj (snd (validate_data (request_state
     (scenario_two_record(''thal'' \<mapsto> JFloat PosInf))))) =
     [''Missing required field: age'', ''sex must be one of [0, 1]''] \<and>
   validate (scenario_two_record(''thal'' \<mapsto> JFloat PosInf)) = Inl OverflowError \<and>
   predict example_model example_now (scenario_two_record(''thal'' \<mapsto> JFloat PosInf)) =
     ((OObj [(''success'', OBool False), (''error'', OStr ''Internal server error'')], 500), []) \<and>
   validate (example_record(''age'' \<mapsto> JFloat PosInf, ''sex'' \<mapsto> JInt 5)) = Inl OverflowError \<and>
   errors_obj (snd (validate_data (request_state
     (example_record(''age'' \<mapsto> JFloat PosInf, ''sex'' \<mapsto> JInt 5))))) = []"
  by code_simp

subsection \<open>Truncation of a fractional oldpeak\<close>

lemma py_trunc_bounds:
  "\<bar>of_int (py_trunc q)\<bar> \<le> \<bar>q\<bar> \<and> \<bar>q - of_int (py_trunc q)\<bar> < 1"
proof (cases "0 \<le> q")
  case True
  have t: "py_trunc q = \<lfloor>q\<rfloor>" using True by (simp add: py_trunc_def)
  have "0 \<le> \<lfloor>q\<rfloor>" using True by simp
  then have f0: "(0::rat) \<le> of_int \<lfloor>q\<rfloor>" by simp
  have f1: "of_int \<lfloor>q\<rfloor> \<le> q" and f2: "q < of_int \<lfloor>q\<rfloor> + 1" by linarith+
  show ?thesis unfolding t using f0 f1 f2 True by (intro conjI; linarith)
next
  case False
  have t: "py_trunc q = \<lceil>q\<rceil>" using False by (simp add: py_trunc_def)
  have "\<lceil>q\<rceil> \<le> 0" using False by (simp add: ceiling_le_iff)
  then have f0: "of_int \<lceil>q\<rceil> \<le> (0::rat)" by simp
  have f1: "q \<le> of_int \<lceil>q\<rceil>" and f2: "of_int \<lceil>q\<rceil> < q + 1" by linarith+
  show ?thesis unfolding t using f0 f1 f2 False by (intro conjI; linarith)
qed

lemma py_trunc_fraction_lost:
  assumes "of_int \<lfloor>q\<rfloor> \<noteq> q"
  shows "of_int (py_trunc q) \<noteq> q"
proof
  assume "of_int (py_trunc q) = q"
  then have "q \<in> \<int>" by (metis Ints_of_int)
  then have "of_int \<lfloor>q\<rfloor> = q" by (auto simp: Ints_def)
  with assms show False by simp
qed

lemma sequence_Inr: "sequence xs = Inr vs \<Longrightarrow> xs = map Inr vs"
  by (induction xs arbitrary: vs) (auto split: sum.splits)

lemma feature_values_oldpeak:
  assumes "feature_values data = Inr row"
  shows "length row = 13 \<and> int_of_field data ''oldpeak'' = Inr (row ! 9)"
proof -
  let ?names = "[''age'', ''sex'', ''cp'', ''trestbps'', ''chol'', ''fbs'', ''restecg'',
        ''thalach'', ''exang'', ''oldpeak'', ''slope'', ''ca'', ''thal'']"
  have eq: "map (int_of_field data) ?names = map Inr row"
    using assms sequence_Inr unfolding feature_values_def by blast
  then have "length (map (int_of_field data) ?names) = length (map Inr row :: (py_exn + int) list)"
    by (rule arg_cong)
  then have len: "length row = 13" by simp
  have "map (int_of_field data) ?names ! 9 = (map Inr row :: (py_exn + int) list) ! 9"
    using eq by (rule arg_cong)
  then have "int_of_field data ''oldpeak'' = Inr (row ! 9)"
    using len by simp
  with len show ?thesis by simp
qed

text \<open>
  C10. For a record whose oldpeak is a finite float that is not an integer, the
  coercion returns the truncation toward zero: an integer no larger in magnitude than
  the float, less than one away from it, and different from it. If the truncation is
  one of 0 to 5 then, whenever the validator returns, no message of its list is about
  oldpeak, and whenever the feature vector is built, its entry for oldpeak (the tenth
  of thirteen) is the truncation.
\<close>

theorem fractional_oldpeak_truncated:
  assumes "data ''oldpeak'' = Some (JFloat (Finite q))" and "of_int \<lfloor>q\<rfloor> \<noteq> q"
  shows "py_int (JFloat (Finite q)) = Inr (py_trunc q) \<and>
         \<bar>of_int (py_trunc q)\<bar> \<le> \<bar>q\<bar> \<and> \<bar>q - of_int (py_trunc q)\<bar> < 1 \<and>
         of_int (py_trunc q) \<noteq> q \<and>
         (py_trunc q \<in> {0..5} \<longrightarrow>
            (\<forall>errs. validate data = Inr errs \<longrightarrow> filter (mentions ''oldpeak'') errs = []) \<and>
            (\<forall>row. feature_values data = Inr row \<longrightarrow> length row = 13 \<and> row ! 9 = py_trunc q))"
proof (intro conjI impI allI)
  show "py_int (JFloat (Finite q)) = Inr (py_trunc q)" by simp
  show "\<bar>of_int (py_trunc q)\<bar> \<le> \<bar>q\<bar>" "\<bar>q - of_int (py_trunc q)\<bar> < 1"
    using py_trunc_bounds [of q] by simp_all
  show "of_int (py_trunc q) \<noteq> q" using py_trunc_fraction_lost [OF assms(2)] .
next
  fix errs
  assume rng: "py_trunc q \<in> {0..5}" and ret: "validate data = Inr errs"
  have mem: "(''oldpeak'', choice [0, 1, 2, 3, 4, 5]) \<in> set VALIDATION_RULES"
    by (simp add: VALIDATION_RULES_def)
  have "py_trunc q \<in> set [0, 1, 2, 3, 4, 5]" using rng by auto
  then show "filter (mentions ''oldpeak'') errs = []"
    using errors_about_field [OF ret mem] assms(1)
    by (simp add: spec_field_errors_def choice_def)
next
  fix row
  assume "feature_values data = Inr row"
  from feature_values_oldpeak [OF this] assms(1)
  show "length row = 13" "row ! 9 = py_trunc q"
    by (simp_all add: int_of_field_def)
qed

lemma fractional_validates: "validate fractional_record = Inr []"
  by code_simp

lemma fractional_features:
  "feature_values fractional_record = Inr [55, 1, 2, 130, 250, 0, 1, 150, 0, 2, 1, 0, 2]"
  by code_simp

lemma trunc_five_halves: "py_trunc (5 / 2) = 2 \<and> rat_of_int \<lfloor>5 / 2 :: rat\<rfloor> \<noteq> 5 / 2"
proof -
  have "\<lfloor>5 / 2 :: rat\<rfloor> = 2" by (rule floor_unique) simp_all
  then show ?thesis by (simp add: py_trunc_def)
qed

theorem fractional_oldpeak_truncated_witness:
  "fractional_record ''oldpeak'' = Some (JFloat (Finite (5 / 2))) \<and>
   py_int (JFloat (Finite (5 / 2))) = Inr 2 \<and>
   validate fractional_record = Inr [] \<and>
   filter (mentions ''oldpeak'') [] = [] \<and>
   feature_values fractional_record = Inr [55, 1, 2, 130, 250, 0, 1, 150, 0, 2, 1, 0, 2] \<and>
   [55, 1, 2, 130, 250, 0, 1, 150, 0, 2, 1, 0, 2] ! 9 = (2::int)"
proof -
  have h1: "fractional_record ''oldpeak'' = Some (JFloat (Finite (5 / 2)))"
    by (simp add: fractional_record_def)
  have h2: "rat_of_int \<lfloor>5 / 2 :: rat\<rfloor> \<noteq> 5 / 2"
    using trunc_five_halves by simp
  note t = fractional_oldpeak_truncated [where data = fractional_record, OF h1 h2]
  from t h1 fractional_validates fractional_features trunc_five_halves
  show ?thesis by simp
qed


end
